theory Spec2Isabelle
  imports Main "HOL-Library.Word"
begin

section \<open>Data model\<close>

text \<open>
  The module is modelled on an LP64 kernel: \<open>size_t\<close>, \<open>ssize_t\<close> and \<open>loff_t\<close> are
  64-bit words (\<open>ssize_t\<close> and \<open>loff_t\<close> are read through \<open>sint\<close>). Slab objects live
  in an explicit store from addresses to entries; the intrusive list hanging off
  \<open>buf_list.head\<close> is the list of the addresses of its nodes, first node first.
\<close>

type_synonym byte = "8 word"
type_synonym size_t = "64 word"
type_synonym ssize_t = "64 word"
type_synonym loff_t = "64 word"
type_synonym addr = nat

text \<open>\<open>struct simple_buffer_entry\<close>: the \<open>node\<close> field is the entry's place in the list of
  the context; \<open>buf\<close> is the flexible array, as long as the allocation made it.\<close>

record simple_buffer_entry =
  len :: size_t
  buf :: "byte list"

datatype mutex = Mutex_uninit | Mutex_unlocked | Mutex_locked | Mutex_destroyed

text \<open>A procfs node, as \<open>proc_create_data\<close> registers it: its name and its mode.\<close>

record proc_dir_entry =
  pde_name :: string
  pde_mode :: nat

text \<open>\<open>struct simple_context\<close>; \<open>None\<close> is the \<open>NULL\<close> handle.\<close>

record simple_context =
  proc_entry :: "proc_dir_entry option"
  buf_list_head :: "addr list"
  buf_list_lock :: mutex

text \<open>The pointers the module hands to \<open>kfree\<close>: an entry of the slab, or the context
  itself, which is the static object \<open>g_ctx\<close> of \<open>simple_driver.c\<close>.\<close>

datatype ptr = Ptr_entry addr | Ptr_ctx

text \<open>The calls into the host kernel that act on shared state or on user memory, in the
  order the module makes them. \<open>Kzalloc\<close> carries the requested size and the result,
  \<open>Copy_from_user\<close> the destination entry, the requested count and the count not copied,
  \<open>Proc_create_data\<close> and \<open>Proc_remove\<close> whether the handle is non-\<open>NULL\<close>.\<close>

datatype event =
    Kzalloc size_t "addr option"
  | Copy_from_user addr size_t size_t
  | Kfree ptr
  | Mutex_init
  | Mutex_lock
  | Mutex_unlock
  | Mutex_destroy
  | List_add_tail addr
  | Proc_create_data bool
  | Proc_remove bool

text \<open>The kernel as the module sees it: the static context, the slab objects the module
  owns, the next address the allocator hands out, the registered procfs nodes, whether the
  host will let the next \<open>proc_create_data\<close> succeed, and the calls made so far.\<close>

record kernel =
  g_ctx :: simple_context
  slab :: "addr \<rightharpoonup> simple_buffer_entry"
  slab_next :: addr
  proc_nodes :: "proc_dir_entry list"
  proc_create_ok :: bool
  trace :: "event list"

section \<open>Host primitives\<close>

definition log_event :: "event \<Rightarrow> kernel \<Rightarrow> kernel" where
  "log_event e k = k\<lparr>trace := trace k @ [e]\<rparr>"

definition EFAULT :: "64 word" where
  "EFAULT = 14"

definition ENOMEM :: int where
  "ENOMEM = 12"

definition SIZE_MAX :: size_t where
  "SIZE_MAX = - 1"

text \<open>\<open>sizeof(struct simple_buffer_entry)\<close>: two list pointers and a \<open>size_t\<close>.\<close>

definition sizeof_simple_buffer_entry :: size_t where
  "sizeof_simple_buffer_entry = 24"

text \<open>\<open>struct_size(entry, buf, n)\<close>: the header plus \<open>n\<close> bytes, saturating at
  \<open>SIZE_MAX\<close> when the sum does not fit.\<close>

definition struct_size :: "size_t \<Rightarrow> size_t" where
  "struct_size n =
     (if unat sizeof_simple_buffer_entry + unat n > unat SIZE_MAX then SIZE_MAX
      else sizeof_simple_buffer_entry + n)"

text \<open>\<open>kzalloc\<close>: the host decides whether memory is available (\<open>ok\<close>); a request of
  \<open>SIZE_MAX\<close> bytes always fails. A new object is zeroed and gets a fresh address.\<close>

definition kzalloc :: "bool \<Rightarrow> size_t \<Rightarrow> kernel \<Rightarrow> addr option \<times> kernel" where
  "kzalloc ok sz k =
     (if ok \<and> sz \<noteq> SIZE_MAX then
        (let a = slab_next k;
             obj = \<lparr>len = 0, buf = replicate (unat sz - unat sizeof_simple_buffer_entry) 0\<rparr>
         in (Some a, log_event (Kzalloc sz (Some a))
                       (k\<lparr>slab := (slab k)(a \<mapsto> obj), slab_next := Suc a\<rparr>)))
      else (None, log_event (Kzalloc sz None) k))"

fun kfree :: "ptr \<Rightarrow> kernel \<Rightarrow> kernel" where
  "kfree (Ptr_entry a) k = log_event (Kfree (Ptr_entry a)) (k\<lparr>slab := (slab k)(a := None)\<rparr>)"
| "kfree Ptr_ctx k = log_event (Kfree Ptr_ctx) k"

text \<open>\<open>copy_from_user(entry->buf, user_buf, n)\<close>. The user buffer is given by the bytes
  that can be read at \<open>user_buf\<close> before the first fault. The call stores the readable
  prefix, zero-fills the rest of the \<open>n\<close> bytes, and returns the count not copied.\<close>

definition copy_from_user :: "addr \<Rightarrow> byte list \<Rightarrow> size_t \<Rightarrow> kernel \<Rightarrow> size_t \<times> kernel" where
  "copy_from_user dst user_buf n k =
     (let c = min (unat n) (length user_buf);
          not_copied = n - of_nat c;
          store = (\<lambda>e. e\<lparr>buf := take c user_buf @ replicate (unat n - c) 0 @ drop (unat n) (buf e)\<rparr>)
      in (not_copied,
          log_event (Copy_from_user dst n not_copied)
            (k\<lparr>slab := (slab k)(dst := map_option store (slab k dst))\<rparr>)))"

definition set_entry_len :: "addr \<Rightarrow> size_t \<Rightarrow> kernel \<Rightarrow> kernel" where
  "set_entry_len a n k = k\<lparr>slab := (slab k)(a := map_option (\<lambda>e. e\<lparr>len := n\<rparr>) (slab k a))\<rparr>"

text \<open>The mutex of the list. A contended \<open>mutex_lock\<close> waits for the holder; between two
  operations of the module the lock is free, so the call is modelled as acquiring it.\<close>

definition set_lock :: "mutex \<Rightarrow> kernel \<Rightarrow> kernel" where
  "set_lock m k = k\<lparr>g_ctx := (g_ctx k)\<lparr>buf_list_lock := m\<rparr>\<rparr>"

definition mutex_init :: "kernel \<Rightarrow> kernel" where
  "mutex_init k = log_event Mutex_init (set_lock Mutex_unlocked k)"

definition mutex_lock :: "kernel \<Rightarrow> kernel" where
  "mutex_lock k = log_event Mutex_lock (set_lock Mutex_locked k)"

definition mutex_unlock :: "kernel \<Rightarrow> kernel" where
  "mutex_unlock k = log_event Mutex_unlock (set_lock Mutex_unlocked k)"

definition mutex_destroy :: "kernel \<Rightarrow> kernel" where
  "mutex_destroy k = log_event Mutex_destroy (set_lock Mutex_destroyed k)"

definition INIT_LIST_HEAD :: "kernel \<Rightarrow> kernel" where
  "INIT_LIST_HEAD k = k\<lparr>g_ctx := (g_ctx k)\<lparr>buf_list_head := []\<rparr>\<rparr>"

definition list_add_tail :: "addr \<Rightarrow> kernel \<Rightarrow> kernel" where
  "list_add_tail a k =
     log_event (List_add_tail a)
       (k\<lparr>g_ctx := (g_ctx k)\<lparr>buf_list_head := buf_list_head (g_ctx k) @ [a]\<rparr>\<rparr>)"

text \<open>\<open>proc_create_data("simple", S_IRUSR | S_IWUSR, NULL, &proc_ops, ctx)\<close> and
  \<open>proc_remove\<close>; the latter does nothing on \<open>NULL\<close>.\<close>

definition proc_create_data :: "string \<Rightarrow> nat \<Rightarrow> kernel \<Rightarrow> proc_dir_entry option \<times> kernel" where
  "proc_create_data name mode k =
     (if proc_create_ok k then
        (let n = \<lparr>pde_name = name, pde_mode = mode\<rparr>
         in (Some n, log_event (Proc_create_data True) (k\<lparr>proc_nodes := proc_nodes k @ [n]\<rparr>)))
      else (None, log_event (Proc_create_data False) k))"

fun proc_remove :: "proc_dir_entry option \<Rightarrow> kernel \<Rightarrow> kernel" where
  "proc_remove None k = log_event (Proc_remove False) k"
| "proc_remove (Some n) k =
     log_event (Proc_remove True) (k\<lparr>proc_nodes := remove1 n (proc_nodes k)\<rparr>)"

text \<open>The sequential-file helper. Its output buffer is a byte list that grows as needed
  (on overflow the helper retries the traversal with a larger buffer). A cursor into the
  list is the rank of its node.\<close>

type_synonym seq_file = "byte list"

definition seq_write :: "seq_file \<Rightarrow> byte list \<Rightarrow> size_t \<Rightarrow> seq_file" where
  "seq_write m data n = m @ take (unat n) data"

definition seq_list_start :: "addr list \<Rightarrow> nat \<Rightarrow> nat option" where
  "seq_list_start head pos = (if pos < length head then Some pos else None)"

definition seq_list_next :: "nat \<Rightarrow> addr list \<Rightarrow> nat \<Rightarrow> nat option \<times> nat" where
  "seq_list_next v head pos = (if Suc v < length head then Some (Suc v) else None, Suc pos)"

text \<open>\<open>list_entry(v, struct simple_buffer_entry, node)\<close>, then the read of the entry:
  \<open>None\<close> when the cursor is off the list or its node is not a live object.\<close>

definition list_entry :: "kernel \<Rightarrow> nat \<Rightarrow> simple_buffer_entry option" where
  "list_entry k v =
     (if v < length (buf_list_head (g_ctx k)) then slab k (buf_list_head (g_ctx k) ! v)
      else None)"

section \<open>The pseudo-file (simple\_context.c)\<close>

definition simple_context_seq_start :: "nat \<Rightarrow> kernel \<Rightarrow> nat option \<times> kernel" where
  "simple_context_seq_start pos k =
     (let k1 = mutex_lock k
      in (seq_list_start (buf_list_head (g_ctx k1)) pos, k1))"

definition simple_context_seq_next :: "nat \<Rightarrow> nat \<Rightarrow> kernel \<Rightarrow> nat option \<times> nat" where
  "simple_context_seq_next v pos k = seq_list_next v (buf_list_head (g_ctx k)) pos"

definition simple_context_seq_stop :: "kernel \<Rightarrow> kernel" where
  "simple_context_seq_stop k = mutex_unlock k"

definition simple_context_seq_show :: "seq_file \<Rightarrow> nat \<Rightarrow> kernel \<Rightarrow> (int \<times> seq_file) option" where
  "simple_context_seq_show m v k =
     (case list_entry k v of
        None \<Rightarrow> None
      | Some entry \<Rightarrow> Some (0, seq_write m (buf entry) (len entry)))"

definition simple_context_proc_open :: "int \<times> seq_file" where
  "simple_context_proc_open = (0, [])"

definition simple_context_proc_write ::
  "bool \<Rightarrow> byte list \<Rightarrow> size_t \<Rightarrow> loff_t \<Rightarrow> kernel \<Rightarrow> ssize_t \<times> loff_t \<times> kernel" where
  "simple_context_proc_write alloc_ok user_buf n pos k =
     (case kzalloc alloc_ok (struct_size n) k of
        (None, k1) \<Rightarrow> (0, pos, k1)
      | (Some entry, k1) \<Rightarrow>
          (case copy_from_user entry user_buf n k1 of
             (not_copied, k2) \<Rightarrow>
               (let written = n - not_copied;
                    k3 = set_entry_len entry written k2
                in if written = 0 then (- EFAULT, pos, kfree (Ptr_entry entry) k3)
                   else (let k4 = mutex_lock k3;
                             k5 = list_add_tail entry k4;
                             k6 = mutex_unlock k5
                         in (written, pos + written, k6)))))"

text \<open>One read session of the sequential-file helper, as it drives the four hooks:
  \<open>start\<close>, then \<open>show\<close> and \<open>next\<close> until the cursor is \<open>NULL\<close>, then \<open>stop\<close>.
  The result is \<open>None\<close> when \<open>show\<close> was handed a cursor without a live entry.\<close>

function seq_iterate :: "kernel \<Rightarrow> seq_file \<Rightarrow> nat option \<Rightarrow> nat \<Rightarrow> (seq_file \<times> nat) option" where
  "seq_iterate k m None pos = Some (m, pos)"
| "seq_iterate k m (Some v) pos =
     (case simple_context_seq_show m v k of
        None \<Rightarrow> None
      | Some (_, m') \<Rightarrow>
          (case simple_context_seq_next v pos k of
             (v', pos') \<Rightarrow> seq_iterate k m' v' pos'))"
  by pat_completeness auto
termination
  by (relation "measure (\<lambda>(k, m, v, pos).
        case v of None \<Rightarrow> 0 | Some i \<Rightarrow> Suc (length (buf_list_head (g_ctx k)) - i))")
     (auto simp: simple_context_seq_next_def seq_list_next_def split: if_splits)

definition seq_read_session :: "nat \<Rightarrow> seq_file \<Rightarrow> kernel \<Rightarrow> (seq_file \<times> nat) option \<times> kernel" where
  "seq_read_session pos m k =
     (case simple_context_seq_start pos k of
        (v, k1) \<Rightarrow> (seq_iterate k1 m v pos, simple_context_seq_stop k1))"

text \<open>A full read: a session from position 0 into an empty output buffer.\<close>

definition full_read :: "kernel \<Rightarrow> byte list option" where
  "full_read k = map_option fst (fst (seq_read_session 0 [] k))"

section \<open>Staged lifecycle (simple\_context.c)\<close>

definition simple_context_procfs_init :: "kernel \<Rightarrow> int \<times> kernel" where
  "simple_context_procfs_init k =
     (case proc_create_data ''simple'' 384 k of
        (e, k1) \<Rightarrow>
          (let k2 = k1\<lparr>g_ctx := (g_ctx k1)\<lparr>proc_entry := e\<rparr>\<rparr>
           in if e = None then (- ENOMEM, k2) else (0, k2)))"

definition simple_context_procfs_term :: "kernel \<Rightarrow> kernel" where
  "simple_context_procfs_term k = proc_remove (proc_entry (g_ctx k)) k"

definition simple_context_buffer_list_init :: "kernel \<Rightarrow> int \<times> kernel" where
  "simple_context_buffer_list_init k = (0, mutex_init (INIT_LIST_HEAD k))"

text \<open>\<open>list_for_each_safe\<close> walks the nodes in list order, the successor read before the
  body runs; the body frees the entry of the node. The head is left as it is.\<close>

definition simple_context_buffer_list_term :: "kernel \<Rightarrow> kernel" where
  "simple_context_buffer_list_term k =
     mutex_destroy (fold (\<lambda>cur. kfree (Ptr_entry cur)) (buf_list_head (g_ctx k)) k)"

text \<open>\<open>struct simple_context_init_term\<close>; \<open>None\<close> is a \<open>NULL\<close> function pointer.\<close>

record simple_context_init_term =
  stage_init :: "(kernel \<Rightarrow> int \<times> kernel) option"
  stage_term :: "(kernel \<Rightarrow> kernel) option"

definition g_ctx_init :: "simple_context_init_term list" where
  "g_ctx_init =
     [\<lparr>stage_init = Some simple_context_buffer_list_init,
       stage_term = Some simple_context_buffer_list_term\<rparr>,
      \<lparr>stage_init = Some simple_context_procfs_init,
       stage_term = Some simple_context_procfs_term\<rparr>]"

text \<open>The two loops, over any table. \<open>term_partial\<close> is \<open>while (i-- > 0)\<close>; \<open>init_loop\<close> is
  the \<open>for\<close> loop of \<open>simple_context_init\<close> and returns \<open>ret\<close>, the final \<open>i\<close> and the
  state. Both counters stay within the table.\<close>

fun term_partial :: "simple_context_init_term list \<Rightarrow> nat \<Rightarrow> kernel \<Rightarrow> kernel" where
  "term_partial tbl 0 k = k"
| "term_partial tbl (Suc i) k =
     term_partial tbl i (case stage_term (tbl ! i) of None \<Rightarrow> k | Some f \<Rightarrow> f k)"

function init_loop :: "simple_context_init_term list \<Rightarrow> int \<Rightarrow> nat \<Rightarrow> kernel \<Rightarrow> int \<times> nat \<times> kernel" where
  "init_loop tbl ret i k =
     (if ret = 0 \<and> i < length tbl then
        (case stage_init (tbl ! i) of
           None \<Rightarrow> init_loop tbl ret (Suc i) k
         | Some f \<Rightarrow> (case f k of (ret', k') \<Rightarrow> init_loop tbl ret' (Suc i) k'))
      else (ret, i, k))"
  by pat_completeness auto
termination
  by (relation "measure (\<lambda>(tbl, ret, i, k). length tbl - i)") auto

declare init_loop.simps [simp del]

definition context_init :: "simple_context_init_term list \<Rightarrow> kernel \<Rightarrow> int \<times> kernel" where
  "context_init tbl k =
     (case init_loop tbl 0 0 k of
        (ret, i, k1) \<Rightarrow>
          if ret \<noteq> 0 then (ret, kfree Ptr_ctx (term_partial tbl i k1)) else (ret, k1))"

definition simple_context_term_partial :: "nat \<Rightarrow> kernel \<Rightarrow> kernel" where
  "simple_context_term_partial i k = term_partial g_ctx_init i k"

definition simple_context_init :: "kernel \<Rightarrow> int \<times> kernel" where
  "simple_context_init k = context_init g_ctx_init k"

definition simple_context_term :: "kernel \<Rightarrow> kernel" where
  "simple_context_term k = simple_context_term_partial (length g_ctx_init) k"

section \<open>Module entry points (simple\_driver.c)\<close>

definition simple_driver_init :: "kernel \<Rightarrow> int \<times> kernel" where
  "simple_driver_init k = simple_context_init k"

definition simple_driver_exit :: "kernel \<Rightarrow> kernel" where
  "simple_driver_exit k = simple_context_term k"

section \<open>Runs of the module\<close>

text \<open>The kernel when the module is loaded: \<open>g_ctx\<close> is zero-initialised static data, the
  module owns no object and has made no call. \<open>ok\<close> is whether procfs will accept the node.\<close>

definition boot :: "bool \<Rightarrow> kernel" where
  "boot ok =
     \<lparr>g_ctx = \<lparr>proc_entry = None, buf_list_head = [], buf_list_lock = Mutex_uninit\<rparr>,
      slab = Map.empty, slab_next = 0, proc_nodes = [], proc_create_ok = ok, trace = []\<rparr>"

definition loaded :: kernel where
  "loaded = snd (simple_driver_init (boot True))"

text \<open>The operations user space performs on the node. \<open>Op_write\<close> carries the outcome of
  the allocation, the readable bytes at the user pointer, the count and the position;
  \<open>Op_read\<close> is one read session from a position; \<open>Op_open\<close> and \<open>Op_release\<close> act on the
  file handle only.\<close>

datatype op =
    Op_open
  | Op_release
  | Op_read nat
  | Op_write bool "byte list" size_t loff_t

fun step :: "op \<Rightarrow> kernel \<Rightarrow> kernel" where
  "step Op_open k = k"
| "step Op_release k = k"
| "step (Op_read pos) k = snd (seq_read_session pos [] k)"
| "step (Op_write alloc_ok user_buf n pos) k =
     snd (snd (simple_context_proc_write alloc_ok user_buf n pos k))"

fun run :: "op list \<Rightarrow> kernel \<Rightarrow> kernel" where
  "run [] k = k"
| "run (x # xs) k = run xs (step x k)"

section \<open>Observations\<close>

text \<open>The payload of an entry is the first \<open>len\<close> bytes of its array; the Log is the
  sequence of the entries on the list, in list order (\<open>None\<close> if a node is not a live
  object).\<close>

definition payload :: "simple_buffer_entry \<Rightarrow> byte list" where
  "payload e = take (unat (len e)) (buf e)"

definition buffer_log :: "kernel \<Rightarrow> simple_buffer_entry list option" where
  "buffer_log k = those (map (slab k) (buf_list_head (g_ctx k)))"

text \<open>Whether a write gets its entry: the host has memory and the size did not saturate.\<close>

definition alloc_succeeds :: "bool \<Rightarrow> size_t \<Rightarrow> bool" where
  "alloc_succeeds alloc_ok n = (alloc_ok \<and> struct_size n \<noteq> SIZE_MAX)"

text \<open>The bytes an operation adds to the Log, from its inputs.\<close>

fun recorded :: "op \<Rightarrow> byte list" where
  "recorded (Op_write alloc_ok user_buf n pos) =
     (if alloc_succeeds alloc_ok n then take (unat n) user_buf else [])"
| "recorded _ = []"

text \<open>Lock discipline of a trace, scanned from a state in which the lock is held or not:
  while the lock is held the only call allowed is the list append.\<close>

fun held_after :: "bool \<Rightarrow> event list \<Rightarrow> bool" where
  "held_after h [] = h"
| "held_after h (Mutex_lock # es) = held_after True es"
| "held_after h (Mutex_unlock # es) = held_after False es"
| "held_after h (_ # es) = held_after h es"

fun lock_discipline :: "bool \<Rightarrow> event list \<Rightarrow> bool" where
  "lock_discipline h [] = True"
| "lock_discipline h (Mutex_lock # es) = lock_discipline True es"
| "lock_discipline h (Mutex_unlock # es) = lock_discipline False es"
| "lock_discipline h (List_add_tail a # es) = lock_discipline h es"
| "lock_discipline h (_ # es) = (\<not> h \<and> lock_discipline h es)"

text \<open>The invariant of the states between operations: the nodes of the list are exactly
  the live objects, every address handed out is below the allocator's next one, and no
  live entry is empty.\<close>

definition log_inv :: "kernel \<Rightarrow> bool" where
  "log_inv k =
     (set (buf_list_head (g_ctx k)) = dom (slab k) \<and>
      (\<forall>a. a \<in> dom (slab k) \<longrightarrow> a < slab_next k) \<and>
      (\<forall>a e. slab k a = Some e \<longrightarrow> len e \<noteq> 0) \<and>
      proc_entry (g_ctx k) = Some \<lparr>pde_name = ''simple'', pde_mode = 384\<rparr> \<and>
      proc_nodes k = [\<lparr>pde_name = ''simple'', pde_mode = 384\<rparr>] \<and>
      held_after False (trace k) = False \<and> lock_discipline False (trace k))"

text \<open>Running the \<open>term\<close> of one table entry, if it has one.\<close>

definition run_stage_term :: "simple_context_init_term \<Rightarrow> kernel \<Rightarrow> kernel" where
  "run_stage_term s k = (case stage_term s of None \<Rightarrow> k | Some f \<Rightarrow> f k)"

section \<open>Auxiliary facts\<close>

lemma unat_SIZE_MAX: "unat SIZE_MAX = 18446744073709551615"
  by (simp add: SIZE_MAX_def unsigned_minus_1_eq_mask mask_eq_exp_minus_1)

lemma struct_size_fits:
  "struct_size n \<noteq> SIZE_MAX \<longleftrightarrow> unat n < 18446744073709551591"
  unfolding struct_size_def sizeof_simple_buffer_entry_def
  by (auto simp: unat_SIZE_MAX word_unat_eq_iff unat_word_ariths)

lemma struct_size_capacity:
  "struct_size n \<noteq> SIZE_MAX \<Longrightarrow>
   unat (struct_size n) - unat sizeof_simple_buffer_entry = unat n"
  unfolding struct_size_def sizeof_simple_buffer_entry_def
  by (simp add: unat_SIZE_MAX unat_word_ariths split: if_splits)

lemma copied_zero_iff:
  "(of_nat (min (unat (n::64 word)) m) :: 64 word) = 0 \<longleftrightarrow> min (unat n) m = 0"
  by (metis Abs_fnat_hom_0 le_unat_uoi min.cobounded1 unsigned_0)

lemma unat_copied:
  "unat (of_nat (min (unat (n::64 word)) m) :: 64 word) = min (unat n) m"
  using le_unat_uoi min.cobounded1 by blast

lemma write_alloc_failed:
  "\<not> alloc_succeeds alloc_ok n \<Longrightarrow>
   simple_context_proc_write alloc_ok ub n pos k =
     (0, pos, k\<lparr>trace := trace k @ [Kzalloc (struct_size n) None]\<rparr>)"
  by (auto simp: simple_context_proc_write_def kzalloc_def log_event_def alloc_succeeds_def)

lemma write_nothing_copied:
  assumes "alloc_succeeds alloc_ok n" "min (unat n) (length ub) = 0"
  shows "simple_context_proc_write alloc_ok ub n pos k =
     (- EFAULT, pos,
      k\<lparr>slab := (slab k)(slab_next k := None), slab_next := Suc (slab_next k),
        trace := trace k @ [Kzalloc (struct_size n) (Some (slab_next k)),
                            Copy_from_user (slab_next k) n n,
                            Kfree (Ptr_entry (slab_next k))]\<rparr>)"
  using assms
  by (simp add: simple_context_proc_write_def kzalloc_def log_event_def copy_from_user_def
      set_entry_len_def Let_def alloc_succeeds_def)

lemma write_copied:
  assumes "alloc_succeeds alloc_ok n" "c = min (unat n) (length ub)" "0 < c"
  shows "simple_context_proc_write alloc_ok ub n pos k =
     (of_nat c, pos + of_nat c,
      k\<lparr>g_ctx := (g_ctx k)\<lparr>buf_list_head := buf_list_head (g_ctx k) @ [slab_next k],
                          buf_list_lock := Mutex_unlocked\<rparr>,
        slab := (slab k)(slab_next k \<mapsto>
                  \<lparr>len = of_nat c, buf = take c ub @ replicate (unat n - c) 0\<rparr>),
        slab_next := Suc (slab_next k),
        trace := trace k @ [Kzalloc (struct_size n) (Some (slab_next k)),
                            Copy_from_user (slab_next k) n (n - of_nat c),
                            Mutex_lock, List_add_tail (slab_next k), Mutex_unlock]\<rparr>)"
proof -
  have nz: "(min (unat n) (length ub) = 0) = False"
    using assms(2,3) by simp
  show ?thesis
    using assms(1)
    by (simp add: simple_context_proc_write_def kzalloc_def log_event_def copy_from_user_def
        set_entry_len_def Let_def mutex_lock_def mutex_unlock_def list_add_tail_def set_lock_def
        struct_size_capacity copied_zero_iff alloc_succeeds_def nz assms(2))
qed

lemma read_session_state:
  "snd (seq_read_session pos m k) =
     k\<lparr>g_ctx := (g_ctx k)\<lparr>buf_list_lock := Mutex_unlocked\<rparr>,
       trace := trace k @ [Mutex_lock, Mutex_unlock]\<rparr>"
  by (simp add: seq_read_session_def simple_context_seq_start_def simple_context_seq_stop_def
      mutex_lock_def mutex_unlock_def set_lock_def log_event_def Let_def)

lemma seq_iterate_from:
  "i < length (buf_list_head (g_ctx k)) \<Longrightarrow>
   seq_iterate k m (Some i) pos =
     map_option (\<lambda>es. (m @ concat (map payload es), pos + (length (buf_list_head (g_ctx k)) - i)))
       (those (map (slab k) (drop i (buf_list_head (g_ctx k)))))"
proof (induction "length (buf_list_head (g_ctx k)) - i" arbitrary: i m pos)
  case 0
  then show ?case by simp
next
  case (Suc d)
  let ?xs = "buf_list_head (g_ctx k)"
  have dr: "drop i ?xs = ?xs ! i # drop (Suc i) ?xs"
    using Suc.prems by (simp add: Cons_nth_drop_Suc)
  show ?case
  proof (cases "slab k (?xs ! i)")
    case None
    then show ?thesis
      using Suc.prems
      by (simp add: dr simple_context_seq_show_def list_entry_def)
  next
    case (Some e)
    show ?thesis
    proof (cases "Suc i < length ?xs")
      case True
      have d: "d = length ?xs - Suc i" using Suc.hyps(2) by simp
      have ih: "seq_iterate k (m @ payload e) (Some (Suc i)) (Suc pos) =
        map_option (\<lambda>es. ((m @ payload e) @ concat (map payload es), Suc pos + (length ?xs - Suc i)))
          (those (map (slab k) (drop (Suc i) ?xs)))"
        by (rule Suc.hyps(1)[OF d True])
      have ar: "Suc pos + (length ?xs - Suc i) = pos + (length ?xs - i)"
        "Suc (pos + length ?xs - Suc i) = pos + length ?xs - i"
        using True by simp_all
      show ?thesis
        apply (subst seq_iterate.simps)
        using Suc.prems Some True
        by (simp del: seq_iterate.simps add: dr simple_context_seq_show_def list_entry_def simple_context_seq_next_def
            seq_list_next_def seq_write_def payload_def[symmetric] ih ar
            option.map_comp comp_def)
    next
      case False
      then have e: "drop (Suc i) ?xs = []" by simp
      have l: "length ?xs - i = Suc 0" using False Suc.prems by simp
      show ?thesis
        apply (subst seq_iterate.simps)
        using Suc.prems Some False
        by (simp add: dr e l simple_context_seq_show_def list_entry_def simple_context_seq_next_def
            seq_list_next_def seq_write_def payload_def[symmetric])
    qed
  qed
qed

lemma full_read_eq:
  "full_read k = map_option (\<lambda>es. concat (map payload es)) (buffer_log k)"
proof (cases "buf_list_head (g_ctx k)")
  case Nil
  then show ?thesis
    by (simp add: full_read_def seq_read_session_def simple_context_seq_start_def
        seq_list_start_def buffer_log_def mutex_lock_def set_lock_def log_event_def Let_def)
next
  case (Cons a as)
  let ?k1 = "mutex_lock k"
  have h: "buf_list_head (g_ctx ?k1) = buf_list_head (g_ctx k)" "slab ?k1 = slab k"
    by (simp_all add: mutex_lock_def set_lock_def log_event_def)
  have pos: "0 < length (buf_list_head (g_ctx ?k1))" using Cons h by simp
  show ?thesis
    using seq_iterate_from[OF pos, of "[]" 0] Cons
    by (simp add: full_read_def seq_read_session_def simple_context_seq_start_def
        seq_list_start_def buffer_log_def h Let_def option.map_comp comp_def)
qed


lemma those_eq_Some_iff: "those xs = Some ys \<longleftrightarrow> xs = map Some ys"
  by (induction xs arbitrary: ys) (auto split: option.splits)

lemma those_snoc:
  "those (xs @ [Some y]) = map_option (\<lambda>es. es @ [y]) (those xs)"
  by (induction xs) (auto split: option.splits simp: option.map_comp comp_def)

lemma held_after_append:
  "held_after h (xs @ ys) = held_after (held_after h xs) ys"
  by (induction h xs rule: held_after.induct) simp_all

lemma lock_discipline_append:
  "lock_discipline h (xs @ ys) \<longleftrightarrow>
     lock_discipline h xs \<and> lock_discipline (held_after h xs) ys"
  by (induction h xs rule: lock_discipline.induct) auto

lemma init_loop_g_ctx_init:
  "init_loop g_ctx_init 0 0 k =
     (case simple_context_procfs_init (mutex_init (INIT_LIST_HEAD k)) of
        (ret, k2) \<Rightarrow> (ret, 2, k2))"
proof -
  let ?k1 = "mutex_init (INIT_LIST_HEAD k)"
  have l: "length g_ctx_init = 2" by (simp add: g_ctx_init_def)
  have s0: "stage_init (g_ctx_init ! 0) = Some simple_context_buffer_list_init"
    and s1: "stage_init (g_ctx_init ! Suc 0) = Some simple_context_procfs_init"
    by (simp_all add: g_ctx_init_def)
  obtain ret k2 where p: "simple_context_procfs_init ?k1 = (ret, k2)"
    by (cases "simple_context_procfs_init ?k1")
  have e2: "init_loop g_ctx_init ret (Suc (Suc 0)) k2 = (ret, 2, k2)"
    by (subst init_loop.simps) (simp add: l del: init_loop.simps)
  have e1: "init_loop g_ctx_init 0 (Suc 0) ?k1 = (ret, 2, k2)"
    by (subst init_loop.simps) (simp add: l s1 p e2 del: init_loop.simps)
  have e0: "init_loop g_ctx_init 0 0 k = (ret, 2, k2)"
    by (subst init_loop.simps)
       (simp add: l s0 simple_context_buffer_list_init_def e1 del: init_loop.simps)
  show ?thesis by (simp add: e0 p del: init_loop.simps)
qed

lemma term_partial_g_ctx_init_2:
  "term_partial g_ctx_init 2 k =
     simple_context_buffer_list_term (simple_context_procfs_term k)"
proof -
  have "term_partial g_ctx_init (Suc (Suc 0)) k =
     simple_context_buffer_list_term (simple_context_procfs_term k)"
    by (simp add: g_ctx_init_def)
  then show ?thesis by (simp add: numeral_2_eq_2)
qed

lemma simple_context_init_ok:
  "proc_create_ok k \<Longrightarrow>
   simple_context_init k =
     (0, k\<lparr>g_ctx := (g_ctx k)\<lparr>proc_entry := Some \<lparr>pde_name = ''simple'', pde_mode = 384\<rparr>,
                              buf_list_head := [], buf_list_lock := Mutex_unlocked\<rparr>,
           proc_nodes := proc_nodes k @ [\<lparr>pde_name = ''simple'', pde_mode = 384\<rparr>],
           trace := trace k @ [Mutex_init, Proc_create_data True]\<rparr>)"
  by (simp add: simple_context_init_def context_init_def init_loop_g_ctx_init
      simple_context_procfs_init_def simple_context_buffer_list_init_def proc_create_data_def
      mutex_init_def INIT_LIST_HEAD_def set_lock_def log_event_def Let_def)

lemma simple_context_init_failed:
  "\<not> proc_create_ok k \<Longrightarrow>
   simple_context_init k =
     (- ENOMEM,
      k\<lparr>g_ctx := (g_ctx k)\<lparr>proc_entry := None, buf_list_head := [],
                          buf_list_lock := Mutex_destroyed\<rparr>,
        trace := trace k @ [Mutex_init, Proc_create_data False, Proc_remove False,
                            Mutex_destroy, Kfree Ptr_ctx]\<rparr>)"
  by (simp add: simple_context_init_def context_init_def init_loop_g_ctx_init
      term_partial_g_ctx_init_2 ENOMEM_def
      simple_context_procfs_init_def simple_context_buffer_list_init_def proc_create_data_def
      simple_context_procfs_term_def simple_context_buffer_list_term_def mutex_destroy_def
      mutex_init_def INIT_LIST_HEAD_def set_lock_def log_event_def Let_def)

lemma loaded_eq:
  "loaded =
     \<lparr>g_ctx = \<lparr>proc_entry = Some \<lparr>pde_name = ''simple'', pde_mode = 384\<rparr>,
               buf_list_head = [], buf_list_lock = Mutex_unlocked\<rparr>,
      slab = Map.empty, slab_next = 0,
      proc_nodes = [\<lparr>pde_name = ''simple'', pde_mode = 384\<rparr>],
      proc_create_ok = True, trace = [Mutex_init, Proc_create_data True]\<rparr>"
  by (simp add: loaded_def simple_driver_init_def simple_context_init_ok boot_def)

lemma log_inv_loaded: "log_inv loaded"
  by (simp add: loaded_eq log_inv_def)


lemma fresh_not_on_list:
  "log_inv k \<Longrightarrow> slab_next k \<notin> set (buf_list_head (g_ctx k))"
  "log_inv k \<Longrightarrow> slab k (slab_next k) = None"
  by (auto simp: log_inv_def)

lemma write_cases:
  obtains (alloc_failed) "\<not> alloc_succeeds alloc_ok n"
  | (nothing_copied) "alloc_succeeds alloc_ok n" "min (unat n) (length ub) = 0"
  | (copied) "alloc_succeeds alloc_ok n" "0 < min (unat n) (length ub)"
  by blast

lemma log_inv_write:
  assumes "log_inv k"
  shows "log_inv (snd (snd (simple_context_proc_write alloc_ok ub n pos k)))"
proof (cases rule: write_cases[where alloc_ok=alloc_ok and n=n and ub=ub])
  case alloc_failed
  then show ?thesis
    using assms
    by (simp add: write_alloc_failed log_inv_def held_after_append lock_discipline_append)
next
  case nothing_copied
  have "slab k (slab_next k) = None" using assms by (rule fresh_not_on_list)
  then have same: "(slab k)(slab_next k := None) = slab k" by auto
  show ?thesis
    using assms
    by (auto simp: write_nothing_copied[OF nothing_copied] same log_inv_def held_after_append
        lock_discipline_append less_Suc_eq)
next
  case copied
  show ?thesis
    using assms copied(2)
    by (auto simp: write_copied[OF copied(1) refl copied(2)] log_inv_def held_after_append
        lock_discipline_append less_Suc_eq copied_zero_iff)
qed

lemma log_inv_step: "log_inv k \<Longrightarrow> log_inv (step x k)"
proof (cases x)
  case (Op_read pos)
  assume "log_inv k"
  then show ?thesis
    by (simp add: Op_read read_session_state log_inv_def held_after_append
        lock_discipline_append)
next
  case (Op_write alloc_ok ub n pos)
  assume "log_inv k"
  then show ?thesis by (simp add: Op_write log_inv_write)
qed simp_all

lemma log_inv_run: "log_inv k \<Longrightarrow> log_inv (run ops k)"
  by (induction ops arbitrary: k) (simp_all add: log_inv_step)

lemma log_inv_reachable: "log_inv (run ops loaded)"
  by (rule log_inv_run[OF log_inv_loaded])

lemma buffer_log_write_copied:
  assumes "log_inv k" "alloc_succeeds alloc_ok n" "c = min (unat n) (length ub)" "0 < c"
  shows "buffer_log (snd (snd (simple_context_proc_write alloc_ok ub n pos k))) =
     map_option (\<lambda>es. es @ [\<lparr>len = of_nat c, buf = take c ub @ replicate (unat n - c) 0\<rparr>])
       (buffer_log k)"
proof -
  have "slab_next k \<notin> set (buf_list_head (g_ctx k))"
    using assms(1) by (rule fresh_not_on_list)
  then have m: "map ((slab k)(slab_next k \<mapsto> e)) (buf_list_head (g_ctx k)) =
      map (slab k) (buf_list_head (g_ctx k))" for e
    by (auto simp: map_eq_conv)
  show ?thesis
    by (simp add: write_copied[OF assms(2,3,4)] buffer_log_def m those_snoc)
qed

lemma buffer_log_write_nothing_copied:
  assumes "log_inv k" "alloc_succeeds alloc_ok n" "min (unat n) (length ub) = 0"
  shows "buffer_log (snd (snd (simple_context_proc_write alloc_ok ub n pos k))) = buffer_log k"
proof -
  have "slab k (slab_next k) = None" using assms(1) by (rule fresh_not_on_list)
  then have same: "(slab k)(slab_next k := None) = slab k" by auto
  show ?thesis
    by (simp add: write_nothing_copied[OF assms(2,3)] buffer_log_def same)
qed

lemma buffer_log_write_alloc_failed:
  "\<not> alloc_succeeds alloc_ok n \<Longrightarrow>
   buffer_log (snd (snd (simple_context_proc_write alloc_ok ub n pos k))) = buffer_log k"
  by (simp add: write_alloc_failed buffer_log_def)

lemma payload_copied:
  "c = min (unat (n::64 word)) (length ub) \<Longrightarrow>
   payload \<lparr>len = of_nat c, buf = take c ub @ replicate (unat n - c) 0\<rparr> = take c ub"
  by (simp add: payload_def unat_copied)

lemma take_copied: "take (min n (length ub)) ub = take n ub"
  by (simp add: min_def)

lemma full_read_step:
  assumes "log_inv k"
  shows "full_read (step x k) = map_option (\<lambda>bs. bs @ recorded x) (full_read k)"
proof (cases x)
  case Op_open
  then show ?thesis by (simp add: option.map_ident)
next
  case Op_release
  then show ?thesis by (simp add: option.map_ident)
next
  case (Op_read pos)
  then show ?thesis
    by (simp add: full_read_eq buffer_log_def read_session_state option.map_comp comp_def)
next
  case (Op_write alloc_ok ub n pos)
  show ?thesis
  proof (cases rule: write_cases[where alloc_ok=alloc_ok and n=n and ub=ub])
    case alloc_failed
    then show ?thesis
      by (simp add: Op_write full_read_eq buffer_log_write_alloc_failed option.map_comp comp_def)
  next
    case nothing_copied
    then have t: "take (unat n) ub = []" by (auto simp: min_def split: if_splits)
    show ?thesis
      using nothing_copied(1)
      by (simp add: Op_write full_read_eq buffer_log_write_nothing_copied[OF assms nothing_copied]
          option.map_comp comp_def t)
  next
    case copied
    show ?thesis
      using copied(1)
      by (simp add: Op_write full_read_eq buffer_log_write_copied[OF assms copied(1) refl copied(2)]
          option.map_comp comp_def payload_def unat_copied take_copied)
  qed
qed

lemma full_read_run:
  "log_inv k \<Longrightarrow>
   full_read (run ops k) = map_option (\<lambda>bs. bs @ concat (map recorded ops)) (full_read k)"
proof (induction ops arbitrary: k)
  case Nil
  then show ?case by (simp add: option.map_ident)
next
  case (Cons x xs)
  have "log_inv (step x k)" using Cons.prems by (rule log_inv_step)
  then show ?case
    by (simp add: Cons.IH full_read_step[OF Cons.prems] option.map_comp comp_def)
qed

lemma full_read_loaded: "full_read loaded = Some []"
  by (simp add: full_read_eq buffer_log_def loaded_eq)

lemma buffer_log_Some:
  "log_inv k \<Longrightarrow> \<exists>es. buffer_log k = Some es \<and> list_all (\<lambda>e. len e \<noteq> 0) es"
proof -
  assume i: "log_inv k"
  let ?xs = "buf_list_head (g_ctx k)"
  have "\<forall>a\<in>set ?xs. \<exists>e. slab k a = Some e" using i by (auto simp: log_inv_def)
  then have "map (slab k) ?xs = map Some (map (\<lambda>a. the (slab k a)) ?xs)"
    by (auto simp: map_eq_conv)
  then have b: "buffer_log k = Some (map (\<lambda>a. the (slab k a)) ?xs)"
    by (simp add: buffer_log_def those_eq_Some_iff)
  have "list_all (\<lambda>e. len e \<noteq> 0) (map (\<lambda>a. the (slab k a)) ?xs)"
    using i by (auto simp: log_inv_def list_all_iff)
  with b show ?thesis by blast
qed

lemma kzalloc_result:
  "fst (kzalloc alloc_ok (struct_size n) k) \<noteq> None \<longleftrightarrow> alloc_succeeds alloc_ok n"
  by (simp add: kzalloc_def alloc_succeeds_def Let_def)

lemma alloc_succeeds_zero: "alloc_succeeds True 0"
  by (simp add: alloc_succeeds_def struct_size_fits)

lemma sint_EFAULT: "sint (- EFAULT) = - 14"
  by (simp add: EFAULT_def)

lemma sint_count: "w < 2 ^ 63 \<Longrightarrow> sint (of_nat w :: 64 word) = int w"
proof -
  assume "w < 2 ^ 63"
  then have "int w < 2 ^ 63" by (metis of_nat_less_iff of_nat_numeral of_nat_power)
  then show ?thesis
    by (simp add: signed_of_nat signed_take_bit_int_eq_self)
qed

lemma positive_return:
  assumes "0 < sint (fst (simple_context_proc_write alloc_ok ub n pos k))"
  shows "alloc_succeeds alloc_ok n \<and> 0 < min (unat n) (length ub) \<and>
         unat (fst (simple_context_proc_write alloc_ok ub n pos k)) = min (unat n) (length ub)"
proof (cases rule: write_cases[where alloc_ok=alloc_ok and n=n and ub=ub])
  case alloc_failed
  then show ?thesis using assms by (simp add: write_alloc_failed)
next
  case nothing_copied
  then show ?thesis using assms by (simp add: write_nothing_copied EFAULT_def)
next
  case copied
  then show ?thesis by (simp add: write_copied[OF copied(1) refl copied(2)] unat_copied)
qed

lemma run_append: "run (xs @ ys) k = run ys (run xs k)"
  by (induction xs arbitrary: k) simp_all

lemma fold_kfree:
  "fold (\<lambda>cur. kfree (Ptr_entry cur)) xs k =
     k\<lparr>slab := (\<lambda>a. if a \<in> set xs then None else slab k a),
       trace := trace k @ map (\<lambda>a. Kfree (Ptr_entry a)) xs\<rparr>"
proof (induction xs arbitrary: k)
  case Nil
  then show ?case by simp
next
  case (Cons x xs)
  have "fold (\<lambda>cur. kfree (Ptr_entry cur)) (x # xs) k =
        fold (\<lambda>cur. kfree (Ptr_entry cur)) xs (kfree (Ptr_entry x) k)"
    by (simp del: kfree.simps)
  also have "\<dots> = (kfree (Ptr_entry x) k)\<lparr>slab := (\<lambda>a. if a \<in> set xs then None
          else slab (kfree (Ptr_entry x) k) a),
       trace := trace (kfree (Ptr_entry x) k) @ map (\<lambda>a. Kfree (Ptr_entry a)) xs\<rparr>"
    by (rule Cons.IH)
  also have "\<dots> = k\<lparr>slab := (\<lambda>a. if a \<in> set (x # xs) then None else slab k a),
       trace := trace k @ map (\<lambda>a. Kfree (Ptr_entry a)) (x # xs)\<rparr>"
    by (simp add: log_event_def fun_eq_iff)
  finally show ?case .
qed

lemma len_nonzero: "(len e \<noteq> 0) = (1 \<le> unat (len e))"
  using unsigned_eq_0_iff by fastforce

lemma recorded_reported:
  assumes "0 < sint (fst (simple_context_proc_write alloc_ok ub n pos k))"
  shows "recorded (Op_write alloc_ok ub n pos) =
         take (unat (fst (simple_context_proc_write alloc_ok ub n pos k))) ub"
  using positive_return[OF assms] by (simp add: take_copied)

lemma write_trace:
  "\<exists>t. trace (snd (snd (simple_context_proc_write alloc_ok ub n pos k))) = trace k @ t \<and>
       (t = [Kzalloc (struct_size n) None] \<or>
        t = [Kzalloc (struct_size n) (Some (slab_next k)), Copy_from_user (slab_next k) n n,
             Kfree (Ptr_entry (slab_next k))] \<or>
        t = [Kzalloc (struct_size n) (Some (slab_next k)),
             Copy_from_user (slab_next k) n
               (n - fst (simple_context_proc_write alloc_ok ub n pos k)),
             Mutex_lock, List_add_tail (slab_next k), Mutex_unlock])"
proof (cases rule: write_cases[where alloc_ok=alloc_ok and n=n and ub=ub])
  case alloc_failed
  then show ?thesis by (simp add: write_alloc_failed)
next
  case nothing_copied
  then show ?thesis by (simp add: write_nothing_copied)
next
  case copied
  then show ?thesis by (simp add: write_copied[OF copied(1) refl copied(2)])
qed

lemma term_partial_fold:
  "i \<le> length tbl \<Longrightarrow> term_partial tbl i k = fold run_stage_term (rev (take i tbl)) k"
proof (induction i arbitrary: k)
  case 0
  then show ?case by simp
next
  case (Suc i)
  then have "take (Suc i) tbl = take i tbl @ [tbl ! i]"
    by (simp add: take_Suc_conv_app_nth)
  then show ?case
    using Suc by (simp add: run_stage_term_def)
qed

lemma teardown_state:
  assumes "log_inv k"
  shows "simple_context_term k =
     k\<lparr>g_ctx := (g_ctx k)\<lparr>buf_list_lock := Mutex_destroyed\<rparr>,
       slab := Map.empty, proc_nodes := [],
       trace := trace k @ Proc_remove True #
                  map (\<lambda>a. Kfree (Ptr_entry a)) (buf_list_head (g_ctx k)) @ [Mutex_destroy]\<rparr>"
proof -
  have l: "length g_ctx_init = 2" by (simp add: g_ctx_init_def)
  have e: "(\<lambda>a. if a \<in> set (buf_list_head (g_ctx k)) then None
          else slab (k\<lparr>proc_nodes := [], trace := trace k @ [Proc_remove True]\<rparr>) a) = Map.empty"
    using assms by (auto simp: log_inv_def fun_eq_iff)
  have pe: "proc_entry (g_ctx k) = Some \<lparr>pde_name = ''simple'', pde_mode = 384\<rparr>"
    and pn: "proc_nodes k = [\<lparr>pde_name = ''simple'', pde_mode = 384\<rparr>]"
    using assms by (simp_all add: log_inv_def)
  show ?thesis
    by (simp add: simple_context_term_def simple_context_term_partial_def l
        term_partial_g_ctx_init_2 simple_context_buffer_list_term_def
        simple_context_procfs_term_def fold_kfree mutex_destroy_def set_lock_def log_event_def
        pe pn e)
qed

lemma init_loop_failure_index:
  "init_loop tbl r i k = (ret, j, k') \<Longrightarrow> r = 0 \<Longrightarrow> ret \<noteq> 0 \<Longrightarrow>
   \<exists>f ks. i < j \<and> j \<le> length tbl \<and> stage_init (tbl ! (j - 1)) = Some f \<and> f ks = (ret, k')"
proof (induction tbl r i k rule: init_loop.induct)
  case (1 tbl r i k)
  show ?case
  proof (cases "i < length tbl")
    case False
    then show ?thesis using "1.prems" by (simp add: init_loop.simps)
  next
    case True
    have unf: "init_loop tbl r i k =
        (case stage_init (tbl ! i) of
           None \<Rightarrow> init_loop tbl r (Suc i) k
         | Some f \<Rightarrow> (case f k of (ret', k') \<Rightarrow> init_loop tbl ret' (Suc i) k'))"
      using True "1.prems"(2) by (subst init_loop.simps) simp
    show ?thesis
    proof (cases "stage_init (tbl ! i)")
      case None
      then have "init_loop tbl r (Suc i) k = (ret, j, k')"
        using "1.prems"(1) unf by simp
      from "1.IH"(1)[OF _ None this "1.prems"(2,3)] True "1.prems"(2)
      obtain f ks where "Suc i < j" "j \<le> length tbl" "stage_init (tbl ! (j - 1)) = Some f"
        "f ks = (ret, k')" by auto
      then show ?thesis by (intro exI[of _ f] exI[of _ ks]) simp
    next
      case (Some g)
      obtain r1 k1 where g: "g k = (r1, k1)" by (cases "g k")
      have step: "init_loop tbl r1 (Suc i) k1 = (ret, j, k')"
        using "1.prems"(1) unf Some g by simp
      show ?thesis
      proof (cases "r1 = 0")
        case True
        from "1.IH"(2)[OF _ Some g[symmetric] step True "1.prems"(3)] \<open>i < length tbl\<close> "1.prems"(2)
        obtain f ks where "Suc i < j" "j \<le> length tbl" "stage_init (tbl ! (j - 1)) = Some f"
          "f ks = (ret, k')" by auto
        then show ?thesis by (intro exI[of _ f] exI[of _ ks]) simp
      next
        case False
        then have "init_loop tbl r1 (Suc i) k1 = (r1, Suc i, k1)"
          by (simp add: init_loop.simps[of tbl r1])
        with step have "ret = r1" "j = Suc i" "k' = k1" by simp_all
        then show ?thesis
          using \<open>i < length tbl\<close> Some g by (intro exI[of _ g] exI[of _ k]) simp
      qed
    qed
  qed
qed

lemma context_init_unwinds_failed_stage:
  assumes "context_init tbl k = (ret, k')" and "ret \<noteq> 0"
  shows "\<exists>j f ks k1. j < length tbl \<and> stage_init (tbl ! j) = Some f \<and> f ks = (ret, k1) \<and>
           k' = kfree Ptr_ctx (term_partial tbl j (run_stage_term (tbl ! j) k1))"
proof -
  obtain r i k1 where l: "init_loop tbl 0 0 k = (r, i, k1)"
    by (cases "init_loop tbl 0 0 k") auto
  have r: "r = ret" and k': "k' = kfree Ptr_ctx (term_partial tbl i k1)"
    using assms l by (auto simp: context_init_def split: if_splits)
  from init_loop_failure_index[OF l refl] assms(2) r
  obtain f ks where i: "0 < i" "i \<le> length tbl" "stage_init (tbl ! (i - 1)) = Some f"
    "f ks = (ret, k1)" by auto
  then obtain j where j: "i = Suc j" by (cases i) auto
  have t: "term_partial tbl i k1 = term_partial tbl j (run_stage_term (tbl ! j) k1)"
    by (simp add: j run_stage_term_def)
  have "j < length tbl" "stage_init (tbl ! j) = Some f"
    using i j by simp_all
  moreover have "k' = kfree Ptr_ctx (term_partial tbl j (run_stage_term (tbl ! j) k1))"
    using k' t by simp
  ultimately show ?thesis using i(4) by blast
qed

section \<open>Claims\<close>

text \<open>
  C1. A write of length 0 creates no Entry: the list is unchanged and a full read after the
  write equals the full read before. The specification (P5) has the call report zero bytes
  written. When the allocation succeeds it does not: the header-only entry is allocated,
  nothing is copied, \<open>written\<close> is 0, the entry is freed and the call returns \<open>-EFAULT\<close>
  (\<open>-14\<close>).
\<close>

theorem zero_length_write_reports_efault:
  "fst (simple_context_proc_write True user_buf 0 pos k) = - EFAULT \<and>
   sint (fst (simple_context_proc_write True user_buf 0 pos k)) = - 14 \<and>
   buf_list_head (g_ctx (snd (snd (simple_context_proc_write True user_buf 0 pos k)))) =
     buf_list_head (g_ctx k) \<and>
   full_read (snd (snd (simple_context_proc_write True user_buf 0 pos (run ops loaded)))) =
     full_read (run ops loaded)"
proof -
  have z: "min (unat (0::64 word)) (length user_buf) = 0" by simp
  note w = write_nothing_copied[OF alloc_succeeds_zero z]
  have "full_read (snd (snd (simple_context_proc_write True user_buf 0 pos (run ops loaded)))) =
     full_read (run ops loaded)"
    by (simp add: full_read_eq
        buffer_log_write_nothing_copied[OF log_inv_reachable alloc_succeeds_zero z])
  then show ?thesis
    by (simp add: w sint_EFAULT)
qed

text \<open>
  C2. When the procfs stage (stage 1) fails, the loop of \<open>simple_context_init\<close> has already
  incremented \<open>i\<close> to 2 when it exits, so \<open>simple_context_term_partial\<close> runs the \<open>term\<close> of
  the failed stage itself (\<open>proc_remove\<close> on the \<open>NULL\<close> handle) before the \<open>term\<close> of stage 0;
  the error \<open>-ENOMEM\<close> is returned. The specification (P6) has the \<open>term\<close> of the failed
  stage not invoked. For any table, \<open>context_init_unwinds_failed_stage\<close> shows the same.
\<close>

theorem failed_stage_term_is_invoked:
  "fst (simple_driver_init (boot False)) = - 12 \<and>
   fst (snd (init_loop g_ctx_init 0 0 (boot False))) = 2 \<and>
   trace (snd (simple_driver_init (boot False))) =
     [Mutex_init, Proc_create_data False, Proc_remove False, Mutex_destroy, Kfree Ptr_ctx]"
  by (simp add: simple_driver_init_def simple_context_init_failed boot_def ENOMEM_def
      init_loop_g_ctx_init simple_context_procfs_init_def proc_create_data_def
      mutex_init_def INIT_LIST_HEAD_def set_lock_def log_event_def)

text \<open>
  C3. In a state reached from a loaded module, a write of \<open>n\<close> bytes whose allocation
  succeeds and whose user copy transfers \<open>w\<close> bytes, \<open>1 \<le> w \<le> n\<close> (\<open>w\<close> is the smaller of \<open>n\<close>
  and the number of readable bytes), returns \<open>w\<close>, advances the position by \<open>w\<close>, and appends
  exactly one Entry, of length \<open>w\<close>, whose payload is the copied prefix; a full read afterwards
  is the full read before followed by these \<open>w\<close> bytes. The return value is read as the
  signed \<open>ssize_t\<close> it is, so \<open>w\<close> is taken to fit: \<open>w < 2 ^ 63\<close> (the VFS layer never passes
  a count above \<open>MAX_RW_COUNT\<close>, which is below \<open>2 ^ 31\<close>).
\<close>

theorem partial_write_appends_copied_prefix:
  assumes "k = run ops loaded"
    and "fst (kzalloc alloc_ok (struct_size n) k) \<noteq> None"
    and "w = min (unat n) (length user_buf)"
    and "1 \<le> w"
    and "w < 2 ^ 63"
    and "k' = snd (snd (simple_context_proc_write alloc_ok user_buf n pos k))"
  shows "sint (fst (simple_context_proc_write alloc_ok user_buf n pos k)) = int w \<and>
         fst (snd (simple_context_proc_write alloc_ok user_buf n pos k)) = pos + of_nat w \<and>
         (\<exists>es e. buffer_log k = Some es \<and> buffer_log k' = Some (es @ [e]) \<and>
                 unat (len e) = w \<and> payload e = take w user_buf) \<and>
         (\<exists>bs. full_read k = Some bs \<and> full_read k' = Some (bs @ take w user_buf))"
proof -
  have a: "alloc_succeeds alloc_ok n"
    using assms(2) kzalloc_result[of alloc_ok n k] by simp
  have i: "log_inv k" using assms(1) log_inv_reachable by simp
  have p: "0 < w" using assms(4) by simp
  note wr = write_copied[OF a assms(3) p]
  obtain es where es: "buffer_log k = Some es"
    using buffer_log_Some[OF i] by blast
  let ?e = "\<lparr>len = of_nat w, buf = take w user_buf @ replicate (unat n - w) 0\<rparr>"
  have b': "buffer_log k' = Some (es @ [?e])"
    by (simp add: assms(6) buffer_log_write_copied[OF i a assms(3) p] es)
  have l: "unat (len ?e) = w"
    by (simp add: assms(3) unat_copied)
  have pl: "payload ?e = take w user_buf"
    by (rule payload_copied[OF assms(3)])
  have r: "sint (fst (simple_context_proc_write alloc_ok user_buf n pos k)) = int w"
    by (simp add: wr sint_count[OF assms(5)])
  have ps: "fst (snd (simple_context_proc_write alloc_ok user_buf n pos k)) = pos + of_nat w"
    by (simp add: wr)
  have f: "full_read k = Some (concat (map payload es))"
    by (simp add: full_read_eq es)
  have f': "full_read k' = Some (concat (map payload es) @ take w user_buf)"
    by (simp add: full_read_eq b' pl)
  from r ps es b' l pl f f' show ?thesis by blast
qed

theorem partial_write_appends_copied_prefix_witness:
  "loaded = run [] loaded \<and>
   fst (kzalloc True (struct_size 8) loaded) \<noteq> None \<and>
   (4::nat) = min (unat (8 :: 64 word)) (length [1, 2, 3, 4 :: byte]) \<and>
   (1::nat) \<le> 4 \<and> (4::nat) < 2 ^ 63 \<and>
   sint (fst (simple_context_proc_write True [1, 2, 3, 4] 8 0 loaded)) = 4 \<and>
   fst (snd (simple_context_proc_write True [1, 2, 3, 4] 8 0 loaded)) = 4 \<and>
   full_read (snd (snd (simple_context_proc_write True [1, 2, 3, 4] 8 0 loaded))) =
     Some [1, 2, 3, 4]"
proof -
  have h1: "loaded = run [] loaded" by simp
  have h2: "fst (kzalloc True (struct_size 8) loaded) \<noteq> None"
    by (rule kzalloc_result[THEN iffD2]) (simp add: alloc_succeeds_def struct_size_fits)
  have h3: "(4::nat) = min (unat (8 :: 64 word)) (length [1, 2, 3, 4 :: byte])" by simp
  have h4: "(1::nat) \<le> 4" by simp
  have h5: "(4::nat) < 2 ^ 63" by simp
  show ?thesis
    using h1 h2 h3 h4 h5
      partial_write_appends_copied_prefix[OF h1 h2 h3 h4 h5 refl, of 0]
    by (simp add: full_read_loaded)
qed

text \<open>
  C4. A full read is the concatenation of the payloads of the Entries in list order, in
  every state. After any sequence of operations on a loaded module, it is the concatenation,
  in the order of the operations, of what each write recorded. In particular, when a write A
  and a later write B both return a positive count, the bytes of A come before the bytes of
  B in every later full read.
\<close>

theorem full_read_concatenates_in_append_order:
  assumes "kA = run pre loaded"
    and "rA = fst (simple_context_proc_write okA ubA nA pA kA)"
    and "kB = run mid (snd (snd (simple_context_proc_write okA ubA nA pA kA)))"
    and "rB = fst (simple_context_proc_write okB ubB nB pB kB)"
    and "0 < sint rA" and "0 < sint rB"
    and "k = run post (snd (snd (simple_context_proc_write okB ubB nB pB kB)))"
  shows "full_read st = map_option (\<lambda>es. concat (map payload es)) (buffer_log st) \<and>
         full_read (run ops loaded) = Some (concat (map recorded ops)) \<and>
         full_read k =
           Some (concat (map recorded pre) @ take (unat rA) ubA @
                 concat (map recorded mid) @ take (unat rB) ubB @
                 concat (map recorded post))"
proof -
  have all: "full_read (run xs loaded) = Some (concat (map recorded xs))" for xs
    by (simp add: full_read_run[OF log_inv_loaded] full_read_loaded)
  let ?wA = "Op_write okA ubA nA pA" and ?wB = "Op_write okB ubB nB pB"
  have k: "k = run (pre @ ?wA # mid @ ?wB # post) loaded"
    by (simp add: assms(1,3,7) run_append)
  have recA: "recorded ?wA = take (unat rA) ubA"
    using assms(5) unfolding assms(2) by (rule recorded_reported)
  have recB: "recorded ?wB = take (unat rB) ubB"
    using assms(6) unfolding assms(4) by (rule recorded_reported)
  have "full_read k = Some (concat (map recorded (pre @ ?wA # mid @ ?wB # post)))"
    unfolding k by (rule all)
  then have "full_read k =
           Some (concat (map recorded pre) @ take (unat rA) ubA @
                 concat (map recorded mid) @ take (unat rB) ubB @
                 concat (map recorded post))"
    by (simp add: recA recB del: recorded.simps)
  with all full_read_eq show ?thesis by blast
qed

theorem full_read_concatenates_in_append_order_witness:
  "0 < sint (fst (simple_context_proc_write True [97, 98] 2 0 loaded)) \<and>
   0 < sint (fst (simple_context_proc_write True [99, 100] 2 2
        (snd (snd (simple_context_proc_write True [97, 98] 2 0 loaded))))) \<and>
   full_read (snd (snd (simple_context_proc_write True [99, 100] 2 2
        (snd (snd (simple_context_proc_write True [97, 98] 2 0 loaded))))))
     = Some [97, 98, 99, 100]"
proof -
  have a: "alloc_succeeds True 2"
    by (simp add: alloc_succeeds_def struct_size_fits)
  have wA: "fst (simple_context_proc_write True [97, 98] 2 0 k) = 2" for k
    by (simp add: write_copied[OF a refl])
  have wB: "fst (simple_context_proc_write True [99, 100] 2 2 k) = 2" for k
    by (simp add: write_copied[OF a refl])
  have hA: "0 < sint (fst (simple_context_proc_write True [97, 98] 2 0 (run [] loaded)))"
    by (simp add: wA)
  have hB: "0 < sint (fst (simple_context_proc_write True [99, 100] 2 2
      (run [] (snd (snd (simple_context_proc_write True [97, 98] 2 0 (run [] loaded)))))))"
    by (simp add: wB)
  show ?thesis
    using hA hB
      full_read_concatenates_in_append_order[OF refl refl refl refl hA hB refl,
        where post="[]" and st=loaded and ops="[]"]
    by (simp add: wA wB)
qed

text \<open>
  C5. When the allocation of the Entry fails, the write returns 0, leaves the position and
  the context as they were, and leaves the Log and what a full read yields unchanged.
\<close>

theorem write_alloc_failure_returns_zero:
  assumes "fst (kzalloc alloc_ok (struct_size n) k) = None"
    and "k' = snd (snd (simple_context_proc_write alloc_ok user_buf n pos k))"
  shows "fst (simple_context_proc_write alloc_ok user_buf n pos k) = 0 \<and>
         fst (snd (simple_context_proc_write alloc_ok user_buf n pos k)) = pos \<and>
         g_ctx k' = g_ctx k \<and> slab k' = slab k \<and>
         buffer_log k' = buffer_log k \<and> full_read k' = full_read k"
proof -
  have f: "\<not> alloc_succeeds alloc_ok n"
    using assms(1) kzalloc_result[of alloc_ok n k] by simp
  note w = write_alloc_failed[OF f]
  have b: "buffer_log k' = buffer_log k"
    unfolding assms(2) by (rule buffer_log_write_alloc_failed[OF f])
  then have "full_read k' = full_read k"
    by (simp add: full_read_eq)
  with b show ?thesis
    by (simp add: assms(2) w)
qed

theorem write_alloc_failure_returns_zero_witness:
  "fst (kzalloc False (struct_size 5) loaded) = None \<and>
   fst (simple_context_proc_write False [1, 2, 3, 4, 5] 5 0 loaded) = 0 \<and>
   full_read (snd (snd (simple_context_proc_write False [1, 2, 3, 4, 5] 5 0 loaded))) = Some []"
proof -
  have h: "fst (kzalloc False (struct_size 5) loaded) = None"
    by (simp add: kzalloc_def)
  show ?thesis
    using h write_alloc_failure_returns_zero[OF h refl, of "[1, 2, 3, 4, 5]" 0]
    by (simp add: full_read_loaded)
qed

text \<open>
  C6. In a state reached from a loaded module, a write of \<open>n \<ge> 1\<close> bytes whose allocation
  succeeds and whose user copy transfers no byte frees the entry it has just allocated and
  returns \<open>-EFAULT\<close>; the position, the context, the live objects, the Log and a full read
  are as before the write.
\<close>

theorem unreadable_buffer_write_fails:
  assumes "k = run ops loaded"
    and "fst (kzalloc alloc_ok (struct_size n) k) \<noteq> None"
    and "1 \<le> unat n"
    and "min (unat n) (length user_buf) = 0"
    and "k' = snd (snd (simple_context_proc_write alloc_ok user_buf n pos k))"
  shows "fst (simple_context_proc_write alloc_ok user_buf n pos k) = - EFAULT \<and>
         sint (fst (simple_context_proc_write alloc_ok user_buf n pos k)) = - 14 \<and>
         fst (snd (simple_context_proc_write alloc_ok user_buf n pos k)) = pos \<and>
         trace k' = trace k @ [Kzalloc (struct_size n) (Some (slab_next k)),
                               Copy_from_user (slab_next k) n n,
                               Kfree (Ptr_entry (slab_next k))] \<and>
         g_ctx k' = g_ctx k \<and> slab k' = slab k \<and>
         buffer_log k' = buffer_log k \<and> full_read k' = full_read k"
proof -
  have a: "alloc_succeeds alloc_ok n"
    using assms(2) kzalloc_result[of alloc_ok n k] by simp
  have i: "log_inv k" using assms(1) log_inv_reachable by simp
  note w = write_nothing_copied[OF a assms(4)]
  have "slab k (slab_next k) = None" using i by (rule fresh_not_on_list)
  then have same: "(slab k)(slab_next k := None) = slab k" by auto
  have b: "buffer_log k' = buffer_log k"
    unfolding assms(5) by (rule buffer_log_write_nothing_copied[OF i a assms(4)])
  then have "full_read k' = full_read k"
    by (simp add: full_read_eq)
  with b show ?thesis
    by (simp add: assms(5) w sint_EFAULT same)
qed

theorem unreadable_buffer_write_fails_witness:
  "loaded = run [] loaded \<and>
   fst (kzalloc True (struct_size 16) loaded) \<noteq> None \<and>
   1 \<le> unat (16 :: 64 word) \<and> min (unat (16 :: 64 word)) (length ([] :: byte list)) = 0 \<and>
   sint (fst (simple_context_proc_write True [] 16 0 loaded)) = - 14 \<and>
   full_read (snd (snd (simple_context_proc_write True [] 16 0 loaded))) = Some []"
proof -
  have h1: "loaded = run [] loaded" by simp
  have h2: "fst (kzalloc True (struct_size 16) loaded) \<noteq> None"
    by (rule kzalloc_result[THEN iffD2]) (simp add: alloc_succeeds_def struct_size_fits)
  have h3: "1 \<le> unat (16 :: 64 word)" by simp
  have h4: "min (unat (16 :: 64 word)) (length ([] :: byte list)) = 0" by simp
  show ?thesis
    using h1 h2 h3 h4 unreadable_buffer_write_fails[OF h1 h2 h3 h4 refl, of 0]
    by (simp add: full_read_loaded sint_EFAULT)
qed

text \<open>
  C7. After any sequence of operations (open, release, read, write) on a loaded module,
  every node of the list is a live Entry and every Entry has \<open>len \<ge> 1\<close>.
\<close>

theorem log_entries_never_empty:
  "\<exists>es. buffer_log (run ops loaded) = Some es \<and> list_all (\<lambda>e. 1 \<le> unat (len e)) es"
  using buffer_log_Some[OF log_inv_reachable, of ops] by (simp add: len_nonzero)

theorem log_entries_never_empty_witness:
  "\<exists>es. buffer_log (run [Op_open, Op_write True [7, 7] 2 0, Op_read 0, Op_write True [] 0 2,
                           Op_release] loaded) = Some es \<and>
        list_all (\<lambda>e. 1 \<le> unat (len e)) es"
  by (rule log_entries_never_empty)

text \<open>
  C8. In the trace of the host calls of any sequence of operations on a loaded module, no
  call other than the list append is made while the lock is held, and the lock is free at
  the end; so no \<open>copy_from_user\<close> happens under the lock. A write makes its calls in the
  order allocation, user copy, and then, if bytes were copied, lock, append, unlock. A read
  session locks in \<open>start\<close> and unlocks in \<open>stop\<close>, and its hooks make no other call: \<open>show\<close>
  only writes into the buffer of the sequential-file helper.
\<close>

theorem lock_not_held_across_user_copy:
  "lock_discipline False (trace (run ops loaded)) \<and>
   held_after False (trace (run ops loaded)) = False \<and>
   (\<exists>t. trace (snd (snd (simple_context_proc_write alloc_ok user_buf n pos k))) = trace k @ t \<and>
       (t = [Kzalloc (struct_size n) None] \<or>
        t = [Kzalloc (struct_size n) (Some (slab_next k)), Copy_from_user (slab_next k) n n,
             Kfree (Ptr_entry (slab_next k))] \<or>
        t = [Kzalloc (struct_size n) (Some (slab_next k)),
             Copy_from_user (slab_next k) n
               (n - fst (simple_context_proc_write alloc_ok user_buf n pos k)),
             Mutex_lock, List_add_tail (slab_next k), Mutex_unlock])) \<and>
   trace (snd (seq_read_session rpos m k)) = trace k @ [Mutex_lock, Mutex_unlock]"
  using log_inv_reachable[of ops] write_trace[of alloc_ok user_buf n pos k]
  by (simp add: log_inv_def read_session_state)

theorem lock_not_held_across_user_copy_witness:
  "lock_discipline False
     (trace (run [Op_write True [1, 2, 3] 8 0, Op_read 0, Op_write True [] 4 3] loaded)) \<and>
   trace (snd (snd (simple_context_proc_write True [1, 2, 3] 8 0 loaded))) =
     [Mutex_init, Proc_create_data True, Kzalloc 32 (Some 0), Copy_from_user 0 8 5,
      Mutex_lock, List_add_tail 0, Mutex_unlock]"
proof -
  have a: "alloc_succeeds True 8"
    by (simp add: alloc_succeeds_def struct_size_fits)
  have s: "struct_size 8 = 32"
    by (simp add: struct_size_def sizeof_simple_buffer_entry_def unat_SIZE_MAX)
  have t: "trace (snd (snd (simple_context_proc_write True [1, 2, 3] 8 0 loaded))) =
     [Mutex_init, Proc_create_data True, Kzalloc 32 (Some 0), Copy_from_user 0 8 5,
      Mutex_lock, List_add_tail 0, Mutex_unlock]"
    by (simp add: write_copied[OF a refl] loaded_eq s)
  show ?thesis
    using lock_not_held_across_user_copy[of
        "[Op_write True [1, 2, 3] 8 0, Op_read 0, Op_write True [] 4 3]" True "[1, 2, 3]" 8 0
        loaded 0 "[]"] t
    by blast
qed

text \<open>
  C9. After a successful initialization and any sequence of operations, teardown runs the
  \<open>term\<close> of every table entry once, last entry first: the procfs node is removed, then
  every Entry on the list is freed and the mutex destroyed. Afterwards the module owns no
  slab object and no procfs node.
\<close>

theorem teardown_releases_everything:
  assumes "fst (simple_driver_init (boot ok)) = 0"
    and "k = run ops (snd (simple_driver_init (boot ok)))"
  shows "simple_driver_exit k = fold run_stage_term (rev g_ctx_init) k \<and>
         simple_driver_exit k =
           simple_context_buffer_list_term (simple_context_procfs_term k) \<and>
         trace (simple_driver_exit k) =
           trace k @ Proc_remove True #
             map (\<lambda>a. Kfree (Ptr_entry a)) (buf_list_head (g_ctx k)) @ [Mutex_destroy] \<and>
         slab (simple_driver_exit k) = Map.empty \<and>
         proc_nodes (simple_driver_exit k) = []"
proof -
  have l: "length g_ctx_init = 2" by (simp add: g_ctx_init_def)
  have "ok"
    using assms(1)
    by (cases ok) (simp_all add: simple_driver_init_def simple_context_init_failed boot_def
        ENOMEM_def)
  then have "k = run ops loaded" using assms(2) by (simp add: loaded_def)
  then have i: "log_inv k" using log_inv_reachable by simp
  have f: "simple_driver_exit k = fold run_stage_term (rev g_ctx_init) k"
    using term_partial_fold[of "length g_ctx_init" g_ctx_init k]
    by (simp add: simple_driver_exit_def simple_context_term_def simple_context_term_partial_def)
  have o: "simple_driver_exit k =
           simple_context_buffer_list_term (simple_context_procfs_term k)"
    by (simp add: simple_driver_exit_def simple_context_term_def
        simple_context_term_partial_def l term_partial_g_ctx_init_2)
  have t: "trace (simple_driver_exit k) =
           trace k @ Proc_remove True #
             map (\<lambda>a. Kfree (Ptr_entry a)) (buf_list_head (g_ctx k)) @ [Mutex_destroy]"
    and sl: "slab (simple_driver_exit k) = Map.empty"
    and pn: "proc_nodes (simple_driver_exit k) = []"
    by (simp_all add: simple_driver_exit_def teardown_state[OF i])
  from f o t sl pn show ?thesis by blast
qed

theorem teardown_releases_everything_witness:
  "fst (simple_driver_init (boot True)) = 0 \<and>
   slab (simple_driver_exit
     (run [Op_write True [1, 2] 2 0, Op_write True [3] 1 2]
        (snd (simple_driver_init (boot True))))) = Map.empty \<and>
   trace (simple_driver_exit
     (run [Op_write True [1, 2] 2 0, Op_write True [3] 1 2]
        (snd (simple_driver_init (boot True))))) =
     [Mutex_init, Proc_create_data True,
      Kzalloc 26 (Some 0), Copy_from_user 0 2 0, Mutex_lock, List_add_tail 0, Mutex_unlock,
      Kzalloc 25 (Some 1), Copy_from_user 1 1 0, Mutex_lock, List_add_tail 1, Mutex_unlock,
      Proc_remove True, Kfree (Ptr_entry 0), Kfree (Ptr_entry 1), Mutex_destroy]"
proof -
  have h: "fst (simple_driver_init (boot True)) = 0"
    by (simp add: simple_driver_init_def simple_context_init_ok boot_def)
  have a2: "alloc_succeeds True 2" and a1: "alloc_succeeds True 1"
    by (simp_all add: alloc_succeeds_def struct_size_fits)
  have s: "struct_size 2 = 26" "struct_size 1 = 25"
    by (simp_all add: struct_size_def sizeof_simple_buffer_entry_def unat_SIZE_MAX)
  have r: "run [Op_write True [1, 2] 2 0, Op_write True [3] 1 2]
      (snd (simple_driver_init (boot True))) =
    loaded\<lparr>g_ctx := (g_ctx loaded)\<lparr>buf_list_head := [0, 1], buf_list_lock := Mutex_unlocked\<rparr>,
      slab := [0 \<mapsto> \<lparr>len = 2, buf = [1, 2]\<rparr>, 1 \<mapsto> \<lparr>len = 1, buf = [3]\<rparr>],
      slab_next := 2,
      trace := [Mutex_init, Proc_create_data True,
        Kzalloc 26 (Some 0), Copy_from_user 0 2 0, Mutex_lock, List_add_tail 0, Mutex_unlock,
        Kzalloc 25 (Some 1), Copy_from_user 1 1 0, Mutex_lock, List_add_tail 1, Mutex_unlock]\<rparr>"
    unfolding loaded_def[symmetric]
    by (simp add: write_copied[OF a2 refl] write_copied[OF a1 refl] s loaded_eq)
  let ?K = "run [Op_write True [1, 2] 2 0, Op_write True [3] 1 2]
      (snd (simple_driver_init (boot True)))"
  have tk: "trace ?K = [Mutex_init, Proc_create_data True,
        Kzalloc 26 (Some 0), Copy_from_user 0 2 0, Mutex_lock, List_add_tail 0, Mutex_unlock,
        Kzalloc 25 (Some 1), Copy_from_user 1 1 0, Mutex_lock, List_add_tail 1, Mutex_unlock]"
    and hk: "buf_list_head (g_ctx ?K) = [0, 1]"
    by (simp_all add: r del: run.simps)
  have "slab (simple_driver_exit ?K) = Map.empty"
    and "trace (simple_driver_exit ?K) =
      trace ?K @ Proc_remove True #
        map (\<lambda>a. Kfree (Ptr_entry a)) (buf_list_head (g_ctx ?K)) @ [Mutex_destroy]"
    using teardown_releases_everything[OF h refl,
        of "[Op_write True [1, 2] 2 0, Op_write True [3] 1 2]"]
    by blast+
  then show ?thesis
    using h by (simp add: tk hk del: run.simps)
qed

text \<open>
  C10. When \<open>simple_driver_init\<close>, which passes the static \<open>g_ctx\<close>, returns an error, the last
  call \<open>simple_context_init\<close> made is \<open>kfree(ctx)\<close> on that context, after the unwinding, and
  the error returned is \<open>-ENOMEM\<close>.
\<close>

theorem failed_init_frees_static_context:
  assumes "simple_driver_init k = (ret, k')" and "ret \<noteq> 0"
  shows "ret = - ENOMEM \<and>
         trace k' = trace k @ [Mutex_init, Proc_create_data False, Proc_remove False,
                               Mutex_destroy, Kfree Ptr_ctx] \<and>
         last (trace k') = Kfree Ptr_ctx \<and>
         (\<exists>i k1. k' = kfree Ptr_ctx (term_partial g_ctx_init i k1))"
proof -
  have np: "\<not> proc_create_ok k"
    using assms by (cases "proc_create_ok k")
      (simp_all add: simple_driver_init_def simple_context_init_ok)
  have r: "ret = - ENOMEM"
    and t: "trace k' = trace k @ [Mutex_init, Proc_create_data False, Proc_remove False,
                               Mutex_destroy, Kfree Ptr_ctx]"
    using assms(1) by (auto simp: simple_driver_init_def simple_context_init_failed[OF np])
  obtain r0 i k1 where l: "init_loop g_ctx_init 0 0 k = (r0, i, k1)"
    by (cases "init_loop g_ctx_init 0 0 k") auto
  have "k' = kfree Ptr_ctx (term_partial g_ctx_init i k1)"
    using assms l
    by (auto simp: simple_driver_init_def simple_context_init_def context_init_def
        split: if_splits)
  with r t show ?thesis by auto
qed

theorem failed_init_frees_static_context_witness:
  "simple_driver_init (boot False) =
     (- 12, snd (simple_driver_init (boot False))) \<and> (- 12 :: int) \<noteq> 0 \<and>
   trace (snd (simple_driver_init (boot False))) =
     [Mutex_init, Proc_create_data False, Proc_remove False, Mutex_destroy, Kfree Ptr_ctx] \<and>
   last (trace (snd (simple_driver_init (boot False)))) = Kfree Ptr_ctx"
proof -
  have h1: "simple_driver_init (boot False) = (- 12, snd (simple_driver_init (boot False)))"
    by (simp add: simple_driver_init_def simple_context_init_failed boot_def ENOMEM_def)
  have h2: "(- 12 :: int) \<noteq> 0" by simp
  have b: "trace (boot False) = []" by (simp add: boot_def)
  show ?thesis
    using h1 h2 failed_init_frees_static_context[OF h1 h2] by (simp add: b)
qed

end
